theory Spec2Isabelle
  imports Main "HOL-Library.Word" "HOL-Library.Multiset" "HOL-Library.Sublist"
begin

section \<open>The to-do list of App.tsx\<close>

text \<open>
  The component \<^verbatim>\<open>App\<close> of \<^verbatim>\<open>src/App.tsx\<close> keeps a list of tasks in React state,
  changes it in three event handlers (\<^verbatim>\<open>handleSubmit\<close>, \<^verbatim>\<open>toggleTodo\<close>, \<^verbatim>\<open>deleteTodo\<close>),
  derives the displayed list \<^verbatim>\<open>filteredTodos\<close> from it, and mirrors it into
  \<^verbatim>\<open>localStorage\<close> under the key \<^verbatim>\<open>todos\<close>.  The state cells of the component are the
  fields of the record \<open>app\<close>; a handler is a function from the state before the event
  to the state after it.  What a handler reads from the platform (the clock) is an
  argument.

  Two library functions of the language are specified only in part, and the rest is the
  engine's: \<^verbatim>\<open>Date.parse\<close> on a string outside the date-time string format, and
  \<^verbatim>\<open>toLowerCase\<close> on letters outside Latin-1.  The engine is a parameter \<open>E\<close> of
  everything that calls them; its two fields are these functions where the model below
  does not define them.  Whatever is proved for \<open>E\<close> holds for every engine.
\<close>

subsection \<open>Strings\<close>

text \<open>
  A JavaScript string is a sequence of 16-bit code units.  Literals are written
  \<open>js ''...''\<close>.
\<close>

type_synonym code_unit = "16 word"
type_synonym jsstring = "code_unit list"

definition js :: "string \<Rightarrow> jsstring" where
  "js s = map of_char s"

text \<open>
  \<^verbatim>\<open>String.prototype.trim\<close> removes WhiteSpace and LineTerminator code points from both
  ends: TAB, LF, VT, FF, CR, SP, NBSP, the Unicode space separators (category Zs),
  LS, PS and ZWNBSP.
\<close>

definition is_white :: "code_unit \<Rightarrow> bool" where
  "is_white c \<longleftrightarrow>
     c = 0x09 \<or> c = 0x0A \<or> c = 0x0B \<or> c = 0x0C \<or> c = 0x0D \<or> c = 0x20 \<or> c = 0xA0 \<or>
     c = 0x1680 \<or> (0x2000 \<le> c \<and> c \<le> 0x200A) \<or> c = 0x2028 \<or> c = 0x2029 \<or>
     c = 0x202F \<or> c = 0x205F \<or> c = 0x3000 \<or> c = 0xFEFF"

definition trim :: "jsstring \<Rightarrow> jsstring" where
  "trim s = rev (dropWhile is_white (rev (dropWhile is_white s)))"

record engine =
  Date_parse_other :: "jsstring \<Rightarrow> int option"
  toLowerCase_other :: "jsstring \<Rightarrow> jsstring"

text \<open>
  \<^verbatim>\<open>String.prototype.toLowerCase\<close> follows the Unicode case mapping.  Among the code
  units below \<^verbatim>\<open>0x100\<close> (Basic Latin and Latin-1) the letters \<^verbatim>\<open>A\<close> to \<^verbatim>\<open>Z\<close> and
  \<^verbatim>\<open>U+00C0\<close> to \<^verbatim>\<open>U+00DE\<close>, without the sign \<^verbatim>\<open>U+00D7\<close>, go to the letter 32 places
  on, every other code unit stays, and the mapping of a letter does not depend on its
  neighbours.  A string with a code unit from \<^verbatim>\<open>0x100\<close> on is mapped by the engine.
\<close>

definition lower_unit :: "code_unit \<Rightarrow> code_unit" where
  "lower_unit c =
     (if 0x41 \<le> c \<and> c \<le> 0x5A then c + 0x20
      else if 0xC0 \<le> c \<and> c \<le> 0xDE \<and> c \<noteq> 0xD7 then c + 0x20
      else c)"

definition toLowerCase :: "engine \<Rightarrow> jsstring \<Rightarrow> jsstring" where
  "toLowerCase E s =
     (if list_all (\<lambda>c. c < 0x100) s then map lower_unit s else toLowerCase_other E s)"

text \<open>\<^verbatim>\<open>s.includes(sub)\<close>: \<open>sub\<close> occurs in \<open>s\<close> at some position.\<close>

fun includes_str :: "jsstring \<Rightarrow> jsstring \<Rightarrow> bool" where
  "includes_str [] sub = (sub = [])"
| "includes_str (c # cs) sub = (prefix sub (c # cs) \<or> includes_str cs sub)"

subsection \<open>Dates\<close>

text \<open>
  A \<^verbatim>\<open>Date\<close> object holds a time value: a whole number of milliseconds since the epoch,
  at most 8.64e15 in absolute value, or NaN (an Invalid Date).  A time value is an
  \<open>int option\<close>, \<open>None\<close> being NaN.  The functions below are the abstract operations
  of the ECMAScript specification (section "Time Values and Time Range" onwards).
\<close>

definition msPerDay :: int where
  "msPerDay = 86400000"



definition InLeapYear :: "int \<Rightarrow> bool" where
  "InLeapYear y \<longleftrightarrow> y mod 4 = 0 \<and> (y mod 100 \<noteq> 0 \<or> y mod 400 = 0)"

definition DaysInYear :: "int \<Rightarrow> int" where
  "DaysInYear y = (if InLeapYear y then 366 else 365)"

definition DayFromYear :: "int \<Rightarrow> int" where
  "DayFromYear y =
     365 * (y - 1970) + (y - 1969) div 4 - (y - 1901) div 100 + (y - 1601) div 400"

text \<open>
  The day number, within its year, of the first day of month \<open>m\<close> (0 is January);
  \<open>leap\<close> is 1 in a leap year and 0 otherwise.
\<close>

definition month_start :: "int \<Rightarrow> int \<Rightarrow> int" where
  "month_start leap m =
     (if m = 0 then 0 else if m = 1 then 31 else if m = 2 then 59 + leap
      else if m = 3 then 90 + leap else if m = 4 then 120 + leap
      else if m = 5 then 151 + leap else if m = 6 then 181 + leap
      else if m = 7 then 212 + leap else if m = 8 then 243 + leap
      else if m = 9 then 273 + leap else if m = 10 then 304 + leap
      else 334 + leap)"

definition leap_days :: "int \<Rightarrow> int" where
  "leap_days y = (if InLeapYear y then 1 else 0)"

text \<open>\<^verbatim>\<open>MakeDay(year, month, date)\<close> for a month in 0..11.\<close>

definition MakeDay :: "int \<Rightarrow> int \<Rightarrow> int \<Rightarrow> int" where
  "MakeDay y m dt = DayFromYear y + month_start (leap_days y) m + dt - 1"

definition MakeTime :: "int \<Rightarrow> int \<Rightarrow> int \<Rightarrow> int \<Rightarrow> int" where
  "MakeTime h mi s ms = h * 3600000 + mi * 60000 + s * 1000 + ms"

definition MakeDate :: "int \<Rightarrow> int \<Rightarrow> int" where
  "MakeDate day time = day * msPerDay + time"

definition TimeClip :: "int \<Rightarrow> int option" where
  "TimeClip t = (if \<bar>t\<bar> > 8640000000000000 then None else Some t)"

subsubsection \<open>Reading a date string\<close>

definition is_digit :: "code_unit \<Rightarrow> bool" where
  "is_digit c \<longleftrightarrow> 0x30 \<le> c \<and> c \<le> 0x39"

definition digit_value :: "code_unit \<Rightarrow> int" where
  "digit_value c = uint c - 48"

text \<open>The number written by a non-empty string of decimal digits.\<close>

definition digits_value :: "jsstring \<Rightarrow> int" where
  "digits_value ds = foldl (\<lambda>n c. 10 * n + digit_value c) 0 ds"

definition decimal :: "jsstring \<Rightarrow> int option" where
  "decimal ds =
     (if ds \<noteq> [] \<and> list_all is_digit ds then Some (digits_value ds) else None)"

text \<open>
  The year of the date-time string format: four digits, or a sign and six digits
  (\<^verbatim>\<open>-000000\<close> is not a year).  Returns the year and the rest of the string.
\<close>

definition parse_year :: "jsstring \<Rightarrow> (int \<times> jsstring) option" where
  "parse_year s =
     (case s of
        [] \<Rightarrow> None
      | c # cs \<Rightarrow>
          if c = 0x2B then
            (if length cs < 6 then None
             else map_option (\<lambda>y. (y, drop 6 cs)) (decimal (take 6 cs)))
          else if c = 0x2D then
            (if length cs < 6 then None
             else case decimal (take 6 cs) of
                    None \<Rightarrow> None
                  | Some y \<Rightarrow> if y = 0 then None else Some (- y, drop 6 cs))
          else
            (if length s < 4 then None
             else map_option (\<lambda>y. (y, drop 4 s)) (decimal (take 4 s))))"

text \<open>\<^verbatim>\<open>-MM-DD\<close>: the month (1..12) and the day of the month (1..31).\<close>

definition parse_month_day :: "jsstring \<Rightarrow> (int \<times> int) option" where
  "parse_month_day s =
     (case s of
        [h1, m1, m2, h2, d1, d2] \<Rightarrow>
          if h1 = 0x2D \<and> h2 = 0x2D then
            (case (decimal [m1, m2], decimal [d1, d2]) of
               (Some m, Some d) \<Rightarrow>
                 if 1 \<le> m \<and> m \<le> 12 \<and> 1 \<le> d \<and> d \<le> 31 then Some (m, d) else None
             | _ \<Rightarrow> None)
          else None
      | _ \<Rightarrow> None)"

text \<open>
  \<^verbatim>\<open>THH:mm:ss.sssZ\<close>: the milliseconds since the start of the day.  Hour 24 is
  allowed at the end of the day only (\<^verbatim>\<open>24:00:00.000\<close>).
\<close>

definition parse_time :: "jsstring \<Rightarrow> int option" where
  "parse_time s =
     (case s of
        [t, h1, h2, c1, m1, m2, c2, s1, s2, p, f1, f2, f3, z] \<Rightarrow>
          if t = 0x54 \<and> c1 = 0x3A \<and> c2 = 0x3A \<and> p = 0x2E \<and> z = 0x5A then
            (case (decimal [h1, h2], decimal [m1, m2], decimal [s1, s2],
                   decimal [f1, f2, f3]) of
               (Some h, Some mi, Some sec, Some ms) \<Rightarrow>
                 if (h \<le> 23 \<or> (h = 24 \<and> mi = 0 \<and> sec = 0 \<and> ms = 0)) \<and> mi \<le> 59 \<and> sec \<le> 59
                 then Some (MakeTime h mi sec ms) else None
             | _ \<Rightarrow> None)
          else None
      | _ \<Rightarrow> None)"

text \<open>The number of days of month \<open>m\<close> (0 is January).\<close>

definition days_in_month :: "int \<Rightarrow> int \<Rightarrow> int" where
  "days_in_month leap m =
     (if m = 1 then 28 + leap
      else if m = 3 \<or> m = 5 \<or> m = 8 \<or> m = 10 then 30
      else 31)"

text \<open>
  The date-time string format of the language, in the two shapes this program meets:
  \<^verbatim>\<open>YYYY-MM-DD\<close>, which is the value of an \<^verbatim>\<open><input type="date">\<close> for a year of four
  digits and is read as midnight UTC, and \<^verbatim>\<open>YYYY-MM-DDTHH:mm:ss.sssZ\<close>, which is the
  output of \<^verbatim>\<open>Date.prototype.toISOString\<close> (the year may be in the expanded form
  \<^verbatim>\<open>+YYYYYY\<close> or \<^verbatim>\<open>-YYYYYY\<close> in both).  \<open>iso_time\<close> is the time such a string
  denotes, before \<^verbatim>\<open>TimeClip\<close>; it is \<open>None\<close> for a string that is not of these shapes
  or names a day its month does not have.
\<close>

definition iso_time :: "jsstring \<Rightarrow> int option" where
  "iso_time s =
     (case parse_year s of
        None \<Rightarrow> None
      | Some (y, r) \<Rightarrow>
          (case parse_month_day (take 6 r) of
             None \<Rightarrow> None
           | Some (m, d) \<Rightarrow>
               if days_in_month (leap_days y) (m - 1) < d then None
               else if drop 6 r = [] then Some (MakeDate (MakeDay y (m - 1) d) 0)
               else (case parse_time (drop 6 r) of
                       None \<Rightarrow> None
                     | Some tm \<Rightarrow> Some (MakeDate (MakeDay y (m - 1) d) tm))))"

text \<open>
  \<^verbatim>\<open>Date.parse\<close>.  A string of the format is read as the format says.  What is made of
  any other string (a year of five digits without a sign, the shorter forms of the
  format, local times, UTC offsets, a day beyond the end of its month, the legacy
  formats) differs between engines and with the time zone: it is what the engine says,
  the field \<open>Date_parse_other\<close>.  The time value of a \<^verbatim>\<open>Date\<close> is always clipped.
\<close>

definition Date_parse :: "engine \<Rightarrow> jsstring \<Rightarrow> int option" where
  "Date_parse E s =
     (case iso_time s of
        Some t \<Rightarrow> TimeClip t
      | None \<Rightarrow> (case Date_parse_other E s of None \<Rightarrow> None | Some t \<Rightarrow> TimeClip t))"

subsubsection \<open>Writing a date string\<close>









definition digit_char :: "int \<Rightarrow> code_unit" where
  "digit_char d = 0x30 + word_of_int d"






subsection \<open>The data model\<close>

datatype category = Work | Personal | Shopping | Health | Other

datatype priority = Low | Medium | High

text \<open>
  The field \<^verbatim>\<open>dueDate?: Date\<close>.  At run time it holds \<^verbatim>\<open>undefined\<close> or a \<^verbatim>\<open>Date\<close>
  in a task made by \<^verbatim>\<open>handleSubmit\<close>, and what \<^verbatim>\<open>JSON.parse\<close> gives in a task read
  back from storage: no property, \<^verbatim>\<open>null\<close> or a string.
\<close>

datatype due = DueUndefined | DueNull | DueDate "int option" | DueString jsstring

text \<open>
  The interface \<^verbatim>\<open>Todo\<close>.  The fields \<^verbatim>\<open>id\<close> and \<^verbatim>\<open>text\<close> are \<open>id'\<close> and \<open>text'\<close>.
  An id is a reading of \<^verbatim>\<open>Date.now()\<close>, a whole number of milliseconds.
\<close>

record todo =
  id' :: int
  text' :: jsstring
  completed :: bool
  category :: category
  priority :: priority
  dueDate :: due

datatype Filter = Filter_all | Filter_active | Filter_completed

text \<open>The state cells of the component that the list logic reads or writes.\<close>

record app =
  todos :: "todo list"
  inputValue :: jsstring
  searchTerm :: jsstring
  statusFilter :: Filter
  selectedCategory :: category
  selectedPriority :: priority
  selectedDate :: jsstring

text \<open>The initial values of the \<^verbatim>\<open>useState\<close> calls.\<close>

definition initial :: app where
  "initial = \<lparr>todos = [], inputValue = [], searchTerm = [], statusFilter = Filter_all,
     selectedCategory = Other, selectedPriority = Medium, selectedDate = []\<rparr>"

subsection \<open>The event handlers\<close>

text \<open>
  \<^verbatim>\<open>handleSubmit\<close>; \<open>now\<close> is the value of \<^verbatim>\<open>Date.now()\<close> at the event.  The test is
  on the trimmed input, the stored text is the input itself.
\<close>

definition handleSubmit :: "engine \<Rightarrow> int \<Rightarrow> app \<Rightarrow> app" where
  "handleSubmit E now s =
     (if trim (inputValue s) \<noteq> [] then
        let newTodo = \<lparr>id' = now, text' = inputValue s, completed = False,
                       category = selectedCategory s, priority = selectedPriority s,
                       dueDate = (if selectedDate s \<noteq> []
                                  then DueDate (Date_parse E (selectedDate s))
                                  else DueUndefined)\<rparr>
        in s\<lparr>todos := todos s @ [newTodo], inputValue := [], selectedDate := []\<rparr>
      else s)"

text \<open>
  \<^verbatim>\<open>toggleTodo\<close>.  The call of \<^verbatim>\<open>confetti\<close> is the only effect besides the new state;
  \<open>toggleTodo_confetti\<close> says whether it happens.
\<close>

definition toggleTodo_confetti :: "int \<Rightarrow> app \<Rightarrow> bool" where
  "toggleTodo_confetti i s =
     (case find (\<lambda>t. id' t = i) (todos s) of
        None \<Rightarrow> False
      | Some t \<Rightarrow> \<not> completed t)"

definition toggleTodo :: "int \<Rightarrow> app \<Rightarrow> app" where
  "toggleTodo i s =
     s\<lparr>todos := map (\<lambda>t. if id' t = i then t\<lparr>completed := \<not> completed t\<rparr> else t) (todos s)\<rparr>"

definition deleteTodo :: "int \<Rightarrow> app \<Rightarrow> app" where
  "deleteTodo i s = s\<lparr>todos := filter (\<lambda>t. id' t \<noteq> i) (todos s)\<rparr>"

subsection \<open>The displayed list\<close>

definition priorityOrder :: "priority \<Rightarrow> int" where
  "priorityOrder p = (case p of High \<Rightarrow> 0 | Medium \<Rightarrow> 1 | Low \<Rightarrow> 2)"

text \<open>\<^verbatim>\<open>a.dueDate && ...\<close>: a \<^verbatim>\<open>Date\<close> is truthy, a string is truthy unless empty.\<close>

definition truthy :: "due \<Rightarrow> bool" where
  "truthy d = (case d of DueUndefined \<Rightarrow> False | DueNull \<Rightarrow> False
               | DueDate _ \<Rightarrow> True | DueString v \<Rightarrow> v \<noteq> [])"

text \<open>\<^verbatim>\<open>new Date(d).getTime()\<close>.\<close>

definition getTime :: "engine \<Rightarrow> due \<Rightarrow> int option" where
  "getTime E d = (case d of DueUndefined \<Rightarrow> None | DueNull \<Rightarrow> Some 0
                | DueDate tv \<Rightarrow> tv | DueString v \<Rightarrow> Date_parse E v)"

text \<open>Subtraction of two numbers either of which may be NaN.\<close>

definition num_minus :: "int option \<Rightarrow> int option \<Rightarrow> int option" where
  "num_minus x y = (case (x, y) of (Some a, Some b) \<Rightarrow> Some (a - b) | _ \<Rightarrow> None)"

text \<open>The comparison function given to \<^verbatim>\<open>sort\<close>; \<open>None\<close> is NaN.\<close>

definition compareTodos :: "engine \<Rightarrow> todo \<Rightarrow> todo \<Rightarrow> int option" where
  "compareTodos E a b =
     (let priorityDiff = priorityOrder (priority a) - priorityOrder (priority b) in
      if priorityDiff \<noteq> 0 then Some priorityDiff
      else if truthy (dueDate a) \<and> truthy (dueDate b)
           then num_minus (getTime E (dueDate a)) (getTime E (dueDate b))
      else Some 0)"

text \<open>
  \<^verbatim>\<open>Array.prototype.sort\<close> reads a NaN from the comparison function as \<open>+0\<close>
  (\<open>SortCompare\<close>).  The sort is stable; with a comparison function that is not a
  consistent ordering of the elements the resulting order is left to the engine.  The
  model is the stable insertion sort: an element goes in front of the first element of
  the sorted rest that it is not greater than.
\<close>

definition SortCompare :: "('a \<Rightarrow> 'a \<Rightarrow> int option) \<Rightarrow> 'a \<Rightarrow> 'a \<Rightarrow> int" where
  "SortCompare cmp x y = (case cmp x y of None \<Rightarrow> 0 | Some v \<Rightarrow> v)"

fun insert_sorted :: "('a \<Rightarrow> 'a \<Rightarrow> int option) \<Rightarrow> 'a \<Rightarrow> 'a list \<Rightarrow> 'a list" where
  "insert_sorted cmp x [] = [x]"
| "insert_sorted cmp x (y # ys) =
     (if SortCompare cmp x y \<le> 0 then x # y # ys else y # insert_sorted cmp x ys)"

fun sort_by :: "('a \<Rightarrow> 'a \<Rightarrow> int option) \<Rightarrow> 'a list \<Rightarrow> 'a list" where
  "sort_by cmp [] = []"
| "sort_by cmp (x # xs) = insert_sorted cmp x (sort_by cmp xs)"

text \<open>
  What the language asks of the result \<open>ys\<close> of any \<^verbatim>\<open>sort\<close> of \<open>xs\<close>, when the comparison
  function orders the elements consistently: the same elements, none after one it is
  greater than, and two elements that compare as equal in the order they had.
\<close>

definition keeps_order :: "('a \<Rightarrow> 'a \<Rightarrow> int option) \<Rightarrow> 'a list \<Rightarrow> 'a list \<Rightarrow> bool" where
  "keeps_order cmp xs ys \<longleftrightarrow>
     (\<forall>x y. SortCompare cmp x y = 0 \<and> SortCompare cmp y x = 0 \<longrightarrow>
        filter (\<lambda>z. z = x \<or> z = y) ys = filter (\<lambda>z. z = x \<or> z = y) xs)"

definition stable_sorting :: "('a \<Rightarrow> 'a \<Rightarrow> int option) \<Rightarrow> 'a list \<Rightarrow> 'a list \<Rightarrow> bool" where
  "stable_sorting cmp xs ys \<longleftrightarrow>
     mset ys = mset xs \<and> sorted_wrt (\<lambda>x y. SortCompare cmp x y \<le> 0) ys \<and>
     keeps_order cmp xs ys"

definition matches_search :: "engine \<Rightarrow> jsstring \<Rightarrow> todo \<Rightarrow> bool" where
  "matches_search E term t = includes_str (toLowerCase E (text' t)) (toLowerCase E term)"

definition matches_status :: "Filter \<Rightarrow> todo \<Rightarrow> bool" where
  "matches_status f t =
     (if f = Filter_active then \<not> completed t
      else if f = Filter_completed then completed t
      else True)"

definition filteredTodos :: "engine \<Rightarrow> app \<Rightarrow> todo list" where
  "filteredTodos E s =
     sort_by (compareTodos E)
       (filter (matches_status (statusFilter s))
          (filter (matches_search E (searchTerm s)) (todos s)))"



subsection \<open>Sequences of events\<close>






subsection \<open>Example data\<close>

text \<open>
  An engine that reads no date string outside the format and maps no letter outside
  Latin-1.
\<close>

definition strict_engine :: engine where
  "strict_engine = \<lparr>Date_parse_other = (\<lambda>s. None), toLowerCase_other = (\<lambda>s. s)\<rparr>"

definition task_A :: todo where
  "task_A = \<lparr>id' = 1, text' = js ''A'', completed = False, category = Other, priority = Low,
     dueDate = DueDate (Date_parse strict_engine (js ''2024-03-01''))\<rparr>"

definition task_B :: todo where
  "task_B = \<lparr>id' = 2, text' = js ''B'', completed = False, category = Other, priority = High,
     dueDate = DueDate (Date_parse strict_engine (js ''2024-03-05''))\<rparr>"

definition task_C :: todo where
  "task_C = \<lparr>id' = 3, text' = js ''C'', completed = True, category = Work, priority = High,
     dueDate = DueUndefined\<rparr>"

definition task_D :: todo where
  "task_D = \<lparr>id' = 4, text' = js ''D'', completed = False, category = Work, priority = High,
     dueDate = DueString (js ''2024-03-02T00:00:00.000Z'')\<rparr>"

definition two_tasks :: app where
  "two_tasks = initial\<lparr>todos := [task_A, task_B]\<rparr>"

definition padded_input :: app where
  "padded_input = initial\<lparr>inputValue := js '' buy milk ''\<rparr>"



subsection \<open>JSON\<close>

text \<open>
  The values \<^verbatim>\<open>JSON.parse\<close> returns.  A number written without fraction and exponent
  and of absolute value at most \<open>2^53 - 1\<close> is kept by its value, a whole number that
  JavaScript holds exactly (\<^verbatim>\<open>-0\<close> is kept as 0); any other number is kept as the text
  that was read, its value is not computed.  An object is the list of its members in the
  order of the text.
\<close>

datatype json =
  JNull
| JBool bool
| JNum int
| JNumLit jsstring
| JStr jsstring
| JArr "json list"
| JObj "(jsstring \<times> json) list"

text \<open>
  \<open>OutOfFuel\<close> is not an outcome of the program.  The parser of the model counts its
  recursive calls down from a bound, and \<open>OutOfFuel\<close> is what it answers when the bound
  is too small; \<open>JSON_parse\<close> gives a bound that is never too small (lemma
  \<open>JSON_parse_fuel\<close>).
\<close>

datatype error = SyntaxError | OutOfFuel

subsubsection \<open>Writing\<close>







text \<open>The decimal digits of a natural number, and \<^verbatim>\<open>Number::toString\<close> of a whole number.\<close>

fun show_nat :: "nat \<Rightarrow> jsstring" where
  "show_nat n = (if n < 10 then [digit_char (int n)]
                 else show_nat (n div 10) @ [digit_char (int (n mod 10))])"



subsubsection \<open>Reading\<close>

definition is_json_ws :: "code_unit \<Rightarrow> bool" where
  "is_json_ws c \<longleftrightarrow> c = 0x09 \<or> c = 0x0A \<or> c = 0x0D \<or> c = 0x20"

definition skip_ws :: "jsstring \<Rightarrow> jsstring" where
  "skip_ws s = dropWhile is_json_ws s"

definition hex_value :: "code_unit \<Rightarrow> nat option" where
  "hex_value c =
     (if 0x30 \<le> c \<and> c \<le> 0x39 then Some (unat c - 48)
      else if 0x61 \<le> c \<and> c \<le> 0x66 then Some (unat c - 87)
      else if 0x41 \<le> c \<and> c \<le> 0x46 then Some (unat c - 55)
      else None)"

text \<open>The code unit of \<^verbatim>\<open>\uXXXX\<close>, from the four digits.\<close>

definition hex4 :: "code_unit \<Rightarrow> code_unit \<Rightarrow> code_unit \<Rightarrow> code_unit \<Rightarrow> code_unit option" where
  "hex4 a b c d =
     (case (hex_value a, hex_value b, hex_value c, hex_value d) of
        (Some p, Some q, Some r, Some t) \<Rightarrow> Some (of_nat (4096 * p + 256 * q + 16 * r + t))
      | _ \<Rightarrow> None)"

text \<open>The character an escape letter stands for.\<close>

definition simple_escape :: "code_unit \<Rightarrow> code_unit option" where
  "simple_escape e =
     (if e = 0x22 then Some 0x22 else if e = 0x5C then Some 0x5C
      else if e = 0x2F then Some 0x2F else if e = 0x62 then Some 0x08
      else if e = 0x66 then Some 0x0C else if e = 0x6E then Some 0x0A
      else if e = 0x72 then Some 0x0D else if e = 0x74 then Some 0x09
      else None)"

text \<open>
  A string, after its opening quote: the characters up to the closing quote, and what
  follows it.  A code unit below \<open>0x20\<close> may not stand in a string unescaped.
\<close>

fun parse_string_body :: "jsstring \<Rightarrow> (jsstring \<times> jsstring) option" where
  "parse_string_body [] = None"
| "parse_string_body (c # cs) =
     (if c = 0x22 then Some ([], cs)
      else if c = 0x5C then
        (case cs of
           [] \<Rightarrow> None
         | e # es \<Rightarrow>
             if e = 0x75 then
               (case es of
                  h1 # h2 # h3 # h4 # r \<Rightarrow>
                    (case hex4 h1 h2 h3 h4 of
                       None \<Rightarrow> None
                     | Some u \<Rightarrow> map_option (\<lambda>(v, r'). (u # v, r')) (parse_string_body r))
                | _ \<Rightarrow> None)
             else
               (case simple_escape e of
                  None \<Rightarrow> None
                | Some u \<Rightarrow> map_option (\<lambda>(v, r'). (u # v, r')) (parse_string_body es)))
      else if c < 0x20 then None
      else map_option (\<lambda>(v, r'). (c # v, r')) (parse_string_body cs))"

text \<open>The fraction of a number, if there is one: \<^verbatim>\<open>.\<close> and at least one digit.\<close>

definition parse_frac :: "jsstring \<Rightarrow> (jsstring \<times> jsstring) option" where
  "parse_frac s =
     (case s of
        [] \<Rightarrow> Some ([], s)
      | c # cs \<Rightarrow>
          if c = 0x2E then
            (let ds = takeWhile is_digit cs in
             if ds = [] then None else Some (c # ds, drop (length ds) cs))
          else Some ([], s))"

text \<open>The exponent, if there is one: \<^verbatim>\<open>e\<close> or \<^verbatim>\<open>E\<close>, a sign or none, at least one digit.\<close>

definition parse_exp :: "jsstring \<Rightarrow> (jsstring \<times> jsstring) option" where
  "parse_exp s =
     (case s of
        [] \<Rightarrow> Some ([], s)
      | c # cs \<Rightarrow>
          if c = 0x65 \<or> c = 0x45 then
            (let sg = (case cs of [] \<Rightarrow> [] | g # _ \<Rightarrow> if g = 0x2B \<or> g = 0x2D then [g] else []);
                 ds = takeWhile is_digit (drop (length sg) cs) in
             if ds = [] then None
             else Some (c # sg @ ds, drop (length sg + length ds) cs))
          else Some ([], s))"

text \<open>The integer part of a number: \<^verbatim>\<open>0\<close>, or digits that do not start with \<^verbatim>\<open>0\<close>.\<close>

definition integer_part :: "jsstring \<Rightarrow> jsstring" where
  "integer_part s =
     (case s of [] \<Rightarrow> [] | c # _ \<Rightarrow> if c = 0x30 then [c] else takeWhile is_digit s)"

text \<open>
  A number: a minus sign or none, the integer part, a fraction or none, an exponent or
  none.  The bound is \<open>2^53 - 1\<close>.
\<close>

definition parse_number :: "jsstring \<Rightarrow> (json \<times> jsstring) option" where
  "parse_number s =
     (let neg = (s \<noteq> [] \<and> hd s = 0x2D);
          s1 = (if neg then tl s else s);
          ip = integer_part s1;
          s2 = drop (length ip) s1
      in if ip = [] then None
         else (case parse_frac s2 of
                 None \<Rightarrow> None
               | Some (fr, s3) \<Rightarrow>
                   (case parse_exp s3 of
                      None \<Rightarrow> None
                    | Some (ex, s4) \<Rightarrow>
                        if fr = [] \<and> ex = [] \<and> digits_value ip \<le> 9007199254740991
                        then Some (JNum (if neg then - digits_value ip else digits_value ip), s4)
                        else Some (JNumLit (take (length s - length s4) s), s4))))"

text \<open>
  A value, the elements of an array after its \<^verbatim>\<open>[\<close> and the members of an object after
  its \<^verbatim>\<open>{\<close> (neither of them empty), each with the text that follows.  The first
  argument bounds the depth of the calls.
\<close>

fun parse_value :: "nat \<Rightarrow> jsstring \<Rightarrow> error + (json \<times> jsstring)"
  and parse_elements :: "nat \<Rightarrow> jsstring \<Rightarrow> error + (json list \<times> jsstring)"
  and parse_members :: "nat \<Rightarrow> jsstring \<Rightarrow> error + ((jsstring \<times> json) list \<times> jsstring)"
  where
  "parse_value 0 s = Inl OutOfFuel"
| "parse_value (Suc n) s =
     (case skip_ws s of
        [] \<Rightarrow> Inl SyntaxError
      | c # cs \<Rightarrow>
          if c = 0x5B then
            (case skip_ws cs of
               [] \<Rightarrow> Inl SyntaxError
             | d # ds \<Rightarrow>
                 if d = 0x5D then Inr (JArr [], ds)
                 else (case parse_elements n (d # ds) of
                         Inl e \<Rightarrow> Inl e
                       | Inr (vs, r) \<Rightarrow> Inr (JArr vs, r)))
          else if c = 0x7B then
            (case skip_ws cs of
               [] \<Rightarrow> Inl SyntaxError
             | d # ds \<Rightarrow>
                 if d = 0x7D then Inr (JObj [], ds)
                 else (case parse_members n (d # ds) of
                         Inl e \<Rightarrow> Inl e
                       | Inr (ms, r) \<Rightarrow> Inr (JObj ms, r)))
          else if c = 0x22 then
            (case parse_string_body cs of
               None \<Rightarrow> Inl SyntaxError
             | Some (v, r) \<Rightarrow> Inr (JStr v, r))
          else if prefix (js ''null'') (c # cs) then Inr (JNull, drop 4 (c # cs))
          else if prefix (js ''true'') (c # cs) then Inr (JBool True, drop 4 (c # cs))
          else if prefix (js ''false'') (c # cs) then Inr (JBool False, drop 5 (c # cs))
          else (case parse_number (c # cs) of
                  None \<Rightarrow> Inl SyntaxError
                | Some (v, r) \<Rightarrow> Inr (v, r)))"
| "parse_elements 0 s = Inl OutOfFuel"
| "parse_elements (Suc n) s =
     (case parse_value n s of
        Inl e \<Rightarrow> Inl e
      | Inr (v, r) \<Rightarrow>
          (case skip_ws r of
             [] \<Rightarrow> Inl SyntaxError
           | c # cs \<Rightarrow>
               if c = 0x2C then
                 (case parse_elements n cs of
                    Inl e \<Rightarrow> Inl e
                  | Inr (vs, r') \<Rightarrow> Inr (v # vs, r'))
               else if c = 0x5D then Inr ([v], cs)
               else Inl SyntaxError))"
| "parse_members 0 s = Inl OutOfFuel"
| "parse_members (Suc n) s =
     (case skip_ws s of
        [] \<Rightarrow> Inl SyntaxError
      | q # qs \<Rightarrow>
          if q \<noteq> 0x22 then Inl SyntaxError
          else (case parse_string_body qs of
                  None \<Rightarrow> Inl SyntaxError
                | Some (k, r) \<Rightarrow>
                    (case skip_ws r of
                       [] \<Rightarrow> Inl SyntaxError
                     | c # cs \<Rightarrow>
                         if c \<noteq> 0x3A then Inl SyntaxError
                         else (case parse_value n cs of
                                 Inl e \<Rightarrow> Inl e
                               | Inr (v, r1) \<Rightarrow>
                                   (case skip_ws r1 of
                                      [] \<Rightarrow> Inl SyntaxError
                                    | d # ds \<Rightarrow>
                                        if d = 0x2C then
                                          (case parse_members n ds of
                                             Inl e \<Rightarrow> Inl e
                                           | Inr (ms, r2) \<Rightarrow> Inr ((k, v) # ms, r2))
                                        else if d = 0x7D then Inr ([(k, v)], ds)
                                        else Inl SyntaxError)))))"

text \<open>
  \<^verbatim>\<open>JSON.parse\<close>: one value, with nothing but white space after it; a \<^verbatim>\<open>SyntaxError\<close>
  otherwise.
\<close>

definition JSON_parse :: "jsstring \<Rightarrow> error + json" where
  "JSON_parse s =
     (case parse_value (2 * length s + 1) s of
        Inl e \<Rightarrow> Inl e
      | Inr (v, r) \<Rightarrow> if skip_ws r = [] then Inr v else Inl SyntaxError)"

subsection \<open>The list in storage\<close>

definition category_name :: "category \<Rightarrow> jsstring" where
  "category_name c =
     (case c of Work \<Rightarrow> js ''work'' | Personal \<Rightarrow> js ''personal''
      | Shopping \<Rightarrow> js ''shopping'' | Health \<Rightarrow> js ''health'' | Other \<Rightarrow> js ''other'')"

definition priority_name :: "priority \<Rightarrow> jsstring" where
  "priority_name p = (case p of Low \<Rightarrow> js ''low'' | Medium \<Rightarrow> js ''medium'' | High \<Rightarrow> js ''high'')"





definition load :: "jsstring option \<Rightarrow> error + json option" where
  "load stored =
     (case stored of
        None \<Rightarrow> Inr None
      | Some saved \<Rightarrow>
          if saved \<noteq> [] then
            (case JSON_parse saved of Inl e \<Rightarrow> Inl e | Inr v \<Rightarrow> Inr (Some v))
          else Inr None)"



text \<open>
  The state is typed \<^verbatim>\<open>Todo[]\<close>, and the value put there by \<^verbatim>\<open>load\<close> is not checked
  against the type.  \<open>todos_of_json\<close> reads a value at that type: an array of objects
  with a whole number \<^verbatim>\<open>id\<close>, a string \<^verbatim>\<open>text\<close>, a boolean \<^verbatim>\<open>completed\<close>, a \<^verbatim>\<open>category\<close>
  and a \<^verbatim>\<open>priority\<close> among the names of the interface, and a \<^verbatim>\<open>dueDate\<close> that is
  absent, \<^verbatim>\<open>null\<close> or a string.  It is \<open>None\<close> on any other value.  Of several members
  with the same key the last one counts, as in \<^verbatim>\<open>JSON.parse\<close>.
\<close>

definition get_member :: "jsstring \<Rightarrow> (jsstring \<times> json) list \<Rightarrow> json option" where
  "get_member k ms = map_of (rev ms) k"

definition as_num :: "json option \<Rightarrow> int option" where
  "as_num v = (case v of Some (JNum i) \<Rightarrow> Some i | _ \<Rightarrow> None)"

definition as_str :: "json option \<Rightarrow> jsstring option" where
  "as_str v = (case v of Some (JStr x) \<Rightarrow> Some x | _ \<Rightarrow> None)"

definition as_bool :: "json option \<Rightarrow> bool option" where
  "as_bool v = (case v of Some (JBool b) \<Rightarrow> Some b | _ \<Rightarrow> None)"

definition as_due :: "json option \<Rightarrow> due option" where
  "as_due v = (case v of None \<Rightarrow> Some DueUndefined | Some JNull \<Rightarrow> Some DueNull
               | Some (JStr x) \<Rightarrow> Some (DueString x) | _ \<Rightarrow> None)"

definition category_of_name :: "jsstring \<Rightarrow> category option" where
  "category_of_name x =
     (if x = js ''work'' then Some Work else if x = js ''personal'' then Some Personal
      else if x = js ''shopping'' then Some Shopping else if x = js ''health'' then Some Health
      else if x = js ''other'' then Some Other else None)"

definition priority_of_name :: "jsstring \<Rightarrow> priority option" where
  "priority_of_name x =
     (if x = js ''low'' then Some Low else if x = js ''medium'' then Some Medium
      else if x = js ''high'' then Some High else None)"

definition todo_of_json :: "json \<Rightarrow> todo option" where
  "todo_of_json v =
     (case v of
        JObj ms \<Rightarrow>
          Option.bind (as_num (get_member (js ''id'') ms)) (\<lambda>i.
          Option.bind (as_str (get_member (js ''text'') ms)) (\<lambda>x.
          Option.bind (as_bool (get_member (js ''completed'') ms)) (\<lambda>b.
          Option.bind (Option.bind (as_str (get_member (js ''category'') ms)) category_of_name) (\<lambda>c.
          Option.bind (Option.bind (as_str (get_member (js ''priority'') ms)) priority_of_name) (\<lambda>p.
          Option.bind (as_due (get_member (js ''dueDate'') ms)) (\<lambda>d.
            Some \<lparr>id' = i, text' = x, completed = b, category = c, priority = p,
                  dueDate = d\<rparr>))))))
      | _ \<Rightarrow> None)"

definition todos_of_json :: "json \<Rightarrow> todo list option" where
  "todos_of_json v = (case v of JArr vs \<Rightarrow> those (map todo_of_json vs) | _ \<Rightarrow> None)"

subsection \<open>What is read back\<close>









subsection \<open>Example data for the storage\<close>

definition broken_snapshot :: jsstring where
  "broken_snapshot = js ''{not json''"

definition number_snapshot :: jsstring where
  "number_snapshot = js ''5''"







section \<open>Lemmas\<close>

subsection \<open>Auxiliary facts\<close>

lemmas date_eval = Date_parse_def iso_time_def days_in_month_def js_def parse_year_def decimal_def digits_value_def is_digit_def
  digit_value_def parse_month_day_def parse_time_def MakeTime_def TimeClip_def MakeDate_def
  MakeDay_def DayFromYear_def month_start_def leap_days_def InLeapYear_def msPerDay_def


lemma Date_parse_2024_03_05: "Date_parse E (js ''2024-03-05'') = Some 1709596800000"
  by (simp add: date_eval)

lemma trim_Nil: "trim [] = []"
  by (simp add: trim_def)


lemma includes_str_Nil: "includes_str s []"
  by (cases s) simp_all

lemma matches_search_empty: "matches_search E [] t"
  by (simp add: matches_search_def toLowerCase_def includes_str_Nil)

lemma mset_insert_sorted: "mset (insert_sorted cmp x ys) = add_mset x (mset ys)"
  by (induction ys) auto

lemma mset_sort_by: "mset (sort_by cmp xs) = mset xs"
  by (induction xs) (auto simp: mset_insert_sorted)


lemma insert_sorted_front:
  "\<forall>y\<in>set ys. SortCompare cmp x y \<le> 0 \<Longrightarrow> insert_sorted cmp x ys = x # ys"
  by (cases ys) auto

lemma sort_by_all_equal:
  "\<forall>x\<in>set xs. \<forall>y\<in>set xs. SortCompare cmp x y \<le> 0 \<Longrightarrow> sort_by cmp xs = xs"
  by (induction xs) (auto simp: insert_sorted_front)



lemma todos_handleSubmit:
  "todos (handleSubmit E now s) =
     (if trim (inputValue s) \<noteq> [] then
        todos s @ [\<lparr>id' = now, text' = inputValue s, completed = False,
                    category = selectedCategory s, priority = selectedPriority s,
                    dueDate = (if selectedDate s \<noteq> []
                               then DueDate (Date_parse E (selectedDate s))
                               else DueUndefined)\<rparr>]
      else todos s)"
  by (simp add: handleSubmit_def Let_def)



lemma compareTodos_cases:
  "(priority a \<noteq> priority b \<longrightarrow>
      compareTodos E a b = Some (priorityOrder (priority a) - priorityOrder (priority b))) \<and>
   (priority a = priority b \<and> truthy (dueDate a) \<and> truthy (dueDate b) \<longrightarrow>
      compareTodos E a b = num_minus (getTime E (dueDate a)) (getTime E (dueDate b))) \<and>
   (priority a = priority b \<and> (\<not> truthy (dueDate a) \<or> \<not> truthy (dueDate b)) \<longrightarrow>
      compareTodos E a b = Some 0)"
  by (cases "priority a"; cases "priority b")
    (auto simp: compareTodos_def priorityOrder_def Let_def)

subsection \<open>The sort\<close>

lemma SortCompare_rank:
  "SortCompare (compareTodos E) x y \<le> 0 \<Longrightarrow> priorityOrder (priority x) \<le> priorityOrder (priority y)"
  "\<not> SortCompare (compareTodos E) x y \<le> 0 \<Longrightarrow> priorityOrder (priority y) \<le> priorityOrder (priority x)"
  by (auto simp: SortCompare_def compareTodos_def Let_def split: if_splits option.splits)

lemma set_insert_sorted: "set (insert_sorted cmp x ys) = insert x (set ys)"
  using mset_insert_sorted [of cmp x ys] by (metis set_mset_add_mset_insert set_mset_mset)

lemma sorted_rank_insert_sorted:
  "sorted (map (\<lambda>t. priorityOrder (priority t)) ys) \<Longrightarrow>
   sorted (map (\<lambda>t. priorityOrder (priority t)) (insert_sorted (compareTodos E) x ys))"
proof (induction ys)
  case Nil
  show ?case by simp
next
  case (Cons y ys)
  show ?case
  proof (cases "SortCompare (compareTodos E) x y \<le> 0")
    case True
    from SortCompare_rank(1) [OF True] Cons.prems show ?thesis
      using True by auto
  next
    case False
    from SortCompare_rank(2) [OF False] Cons show ?thesis
      using False by (auto simp: set_insert_sorted)
  qed
qed

lemma sorted_rank_sort_by:
  "sorted (map (\<lambda>t. priorityOrder (priority t)) (sort_by (compareTodos E) xs))"
  by (induction xs) (simp_all add: sorted_rank_insert_sorted)

lemma three_perm:
  assumes "mset ys = mset [a, b, c]"
  shows "ys = [a, b, c] \<or> ys = [a, c, b] \<or> ys = [b, a, c] \<or> ys = [b, c, a] \<or>
         ys = [c, a, b] \<or> ys = [c, b, a]"
proof -
  from assms have l: "length ys = length [a, b, c]" by (rule mset_eq_length)
  then obtain x zs where ys1: "ys = x # zs" by (cases ys) auto
  with l obtain y ws where ys2: "zs = y # ws" by (cases zs) auto
  with l ys1 obtain z where ys3: "ws = [z]" by (cases ws) auto
  note ys = ys1 [unfolded ys2 ys3]
  from assms have m: "mset [x, y, z] = mset [a, b, c]" unfolding ys .
  have xin: "x = a \<or> x = b \<or> x = c"
    using mset_eq_setD [OF m] by auto
  show ?thesis
  proof -
    consider "x = a" | "x = b" | "x = c" using xin by blast
    then show ?thesis
    proof cases
      case 1
      with m have "mset [y, z] = mset [b, c]" by simp
      then have "(y = b \<and> z = c) \<or> (y = c \<and> z = b)"
        by (auto simp: add_eq_conv_ex)
      with 1 ys show ?thesis by auto
    next
      case 2
      with m have "mset [y, z] = mset [a, c]" by (simp add: add_mset_commute)
      then have "(y = a \<and> z = c) \<or> (y = c \<and> z = a)"
        by (auto simp: add_eq_conv_ex)
      with 2 ys show ?thesis by auto
    next
      case 3
      with m have "add_mset c (mset [y, z]) = add_mset c (mset [a, b])"
        by (simp add: add_mset_commute)
      then have "mset [y, z] = mset [a, b]" by simp
      then have "(y = a \<and> z = b) \<or> (y = b \<and> z = a)"
        by (auto simp: add_eq_conv_ex)
      with 3 ys show ?thesis by auto
    qed
  qed
qed

lemma example_compare:
  assumes "priority a = Low" "priority b = High" "priority c = High" "\<not> truthy (dueDate c)"
  shows "SortCompare (compareTodos E) a b = 2" "SortCompare (compareTodos E) a c = 2"
    "SortCompare (compareTodos E) b a = - 2" "SortCompare (compareTodos E) c a = - 2"
    "SortCompare (compareTodos E) b c = 0" "SortCompare (compareTodos E) c b = 0"
  using assms by (simp_all add: SortCompare_def compareTodos_def priorityOrder_def)

lemma any_stable_sort_example:
  assumes p: "priority a = Low" "priority b = High" "priority c = High" "\<not> truthy (dueDate c)"
    and bc: "b \<noteq> c"
    and st: "stable_sorting (compareTodos E) [a, b, c] ys"
  shows "ys = [b, c, a]"
proof -
  note cmp = example_compare [OF p]
  from p have ab: "a \<noteq> b" and ac: "a \<noteq> c" by auto
  from st have m: "mset ys = mset [a, b, c]"
    and so: "sorted_wrt (\<lambda>x y. SortCompare (compareTodos E) x y \<le> 0) ys"
    and ko: "keeps_order (compareTodos E) [a, b, c] ys"
    by (simp_all add: stable_sorting_def)
  from ko cmp(5,6) have f: "filter (\<lambda>z. z = b \<or> z = c) ys = filter (\<lambda>z. z = b \<or> z = c) [a, b, c]"
    unfolding keeps_order_def by blast
  from three_perm [OF m] show ?thesis
  proof (elim disjE)
    assume "ys = [a, b, c]"
    with so cmp(1) show ?thesis by simp
  next
    assume "ys = [a, c, b]"
    with so cmp(1) show ?thesis by simp
  next
    assume "ys = [b, a, c]"
    with so cmp(2) show ?thesis by simp
  next
    assume "ys = [b, c, a]"
    then show ?thesis .
  next
    assume "ys = [c, a, b]"
    with so cmp(1) show ?thesis by simp
  next
    assume "ys = [c, b, a]"
    with f ab ac bc show ?thesis by auto
  qed
qed

lemma sort_by_example_stable:
  assumes p: "priority a = Low" "priority b = High" "priority c = High" "\<not> truthy (dueDate c)"
  shows "stable_sorting (compareTodos E) [a, b, c] (sort_by (compareTodos E) [a, b, c])"
proof -
  note cmp = example_compare [OF p]
  from p have ab: "a \<noteq> b" and ac: "a \<noteq> c" by auto
  have s: "sort_by (compareTodos E) [a, b, c] = [b, c, a]"
    using cmp by simp
  have k: "filter (\<lambda>z. z = x \<or> z = y) [b, c, a] = filter (\<lambda>z. z = x \<or> z = y) [a, b, c]"
    if e: "SortCompare (compareTodos E) x y = 0" "SortCompare (compareTodos E) y x = 0" for x y
  proof (cases "a = x \<or> a = y")
    case False
    then show ?thesis by simp
  next
    case True
    have "b \<noteq> x \<and> b \<noteq> y \<and> c \<noteq> x \<and> c \<noteq> y"
      using True e cmp ab ac by auto
    then show ?thesis by auto
  qed
  show ?thesis
    unfolding s stable_sorting_def keeps_order_def using cmp k by simp
qed

subsection \<open>Days and years\<close>



lemma div_step:
  fixes x :: int
  assumes "1 < k"
  shows "(x + 1) div k = x div k + (if (x + 1) mod k = 0 then 1 else 0)"
proof -
  define m where "m = x mod k"
  have m: "0 \<le> m" "m < k" using assms by (simp_all add: m_def)
  have one: "(1::int) div k = 0" "(1::int) mod k = 1"
    using assms by (simp_all add: div_pos_pos_trivial mod_pos_pos_trivial)
  have e: "(x + 1) div k = x div k + (m + 1) div k"
    using div_add1_eq [of x 1 k] one by (simp add: m_def)
  have f: "(x + 1) mod k = (m + 1) mod k"
    unfolding m_def by (simp add: mod_add_left_eq)
  show ?thesis
  proof (cases "m + 1 = k")
    case True
    moreover have "k div k = 1" using assms by simp
    ultimately show ?thesis using e f by simp
  next
    case False
    with m have lt: "m + 1 < k" by linarith
    with m have "(m + 1) div k = 0" "(m + 1) mod k = m + 1"
      by (simp_all add: div_pos_pos_trivial mod_pos_pos_trivial)
    with e f m show ?thesis by simp
  qed
qed

lemma mod_400_100: "(y::int) mod 400 = 0 \<Longrightarrow> y mod 100 = 0"
  using mod_mod_cancel [of 100 400 y] by simp

lemma mod_100_4: "(y::int) mod 100 = 0 \<Longrightarrow> y mod 4 = 0"
  using mod_mod_cancel [of 4 100 y] by simp

lemma DayFromYear_Suc: "DayFromYear (y + 1) = DayFromYear y + 365 + leap_days y"
proof -
  have a: "(y - 1968) div 4 = (y - 1969) div 4 + (if (y - 1968) mod 4 = 0 then 1 else 0)"
    using div_step [of 4 "y - 1969"] by simp
  have b: "(y - 1900) div 100 = (y - 1901) div 100 + (if (y - 1900) mod 100 = 0 then 1 else 0)"
    using div_step [of 100 "y - 1901"] by simp
  have c: "(y - 1600) div 400 = (y - 1601) div 400 + (if (y - 1600) mod 400 = 0 then 1 else 0)"
    using div_step [of 400 "y - 1601"] by simp
  have m4: "(y - 1968) mod 4 = y mod 4"
    using mod_diff_right_eq [of y 1968 4] by simp
  have m100: "(y - 1900) mod 100 = y mod 100"
    using mod_diff_right_eq [of y 1900 100] by simp
  have m400: "(y - 1600) mod 400 = y mod 400"
    using mod_diff_right_eq [of y 1600 400] by simp
  have e: "DayFromYear (y + 1) =
      365 * (y - 1969) + (y - 1968) div 4 - (y - 1900) div 100 + (y - 1600) div 400"
    by (simp add: DayFromYear_def)
  have f: "DayFromYear (y + 1) = DayFromYear y + 365 +
      (if y mod 4 = 0 then 1 else 0) - (if y mod 100 = 0 then 1 else 0) +
      (if y mod 400 = 0 then 1 else 0)"
    unfolding e a b c m4 m100 m400 by (simp add: DayFromYear_def)
  show ?thesis
  proof (cases "y mod 400 = 0")
    case True
    with mod_400_100 [of y] mod_100_4 [of y] f show ?thesis
      by (simp add: leap_days_def InLeapYear_def)
  next
    case n400: False
    show ?thesis
    proof (cases "y mod 100 = 0")
      case True
      with n400 mod_100_4 [of y] f show ?thesis
        by (simp add: leap_days_def InLeapYear_def)
    next
      case False
      with n400 f show ?thesis
        by (simp add: leap_days_def InLeapYear_def)
    qed
  qed
qed








lemma DayFromYear_DaysInYear: "DayFromYear (y + 1) = DayFromYear y + DaysInYear y"
  by (simp add: DayFromYear_Suc DaysInYear_def leap_days_def)

subsection \<open>Strings are read back from their quoted form\<close>








subsection \<open>Whole numbers are read back from their digits\<close>




lemma show_nat_unfold:
  "show_nat n = (if n < 10 then [digit_char (int n)]
                 else show_nat (n div 10) @ [digit_char (int (n mod 10))])"
  by (rule show_nat.simps)

declare show_nat.simps [simp del]

lemma show_nat_not_Nil: "show_nat n \<noteq> []"
  by (subst show_nat_unfold) simp











lemma hd_show_nat_append: "hd (show_nat n @ r) = hd (show_nat n)"
  using show_nat_not_Nil [of n] by simp



subsection \<open>A time value is read back from its ISO string\<close>
































subsection \<open>The parser consumes its input and never runs out of fuel\<close>

lemma skip_ws_length: "length (skip_ws s) \<le> length s"
  by (simp add: skip_ws_def length_dropWhile_le)

lemma map_option_rest:
  "map_option (\<lambda>(v, r'). (u # v, r')) x = Some (w, r) \<Longrightarrow> \<exists>v0. x = Some (v0, r)"
  by (cases x) auto

lemma parse_string_body_length:
  "parse_string_body s = Some (v, r) \<Longrightarrow> length r < length s"
proof (induction "length s" arbitrary: s v r rule: less_induct)
  case less
  show ?case
  proof (cases s)
    case Nil
    with less.prems show ?thesis by simp
  next
    case (Cons c cs)
    note IH = less.hyps [unfolded Cons]
    note prem = less.prems [unfolded Cons]
    show ?thesis
    proof (cases "c = 0x22")
      case True
      with prem Cons show ?thesis by simp
    next
      case nq: False
      show ?thesis
      proof (cases "c = 0x5C")
        case bs: True
        show ?thesis
        proof (cases cs)
          case Nil
          with prem nq bs show ?thesis by simp
        next
          case cs: (Cons e es)
          show ?thesis
          proof (cases "e = 0x75")
            case u: True
            from prem nq bs cs u obtain h1 h2 h3 h4 r0 where es: "es = h1 # h2 # h3 # h4 # r0"
              by (cases es; simp split: list.splits)
            from prem nq bs cs u es obtain w where h: "hex4 h1 h2 h3 h4 = Some w"
              by (cases "hex4 h1 h2 h3 h4") simp_all
            from prem nq bs cs u es h obtain v0 where "parse_string_body r0 = Some (v0, r)"
              using map_option_rest by fastforce
            from IH [OF _ this] es cs Cons show ?thesis by simp
          next
            case nu: False
            from prem nq bs cs nu obtain w where se: "simple_escape e = Some w"
              by (cases "simple_escape e") simp_all
            from prem nq bs cs nu se obtain v0 where "parse_string_body es = Some (v0, r)"
              using map_option_rest by fastforce
            from IH [OF _ this] cs Cons show ?thesis by simp
          qed
        qed
      next
        case nbs: False
        show ?thesis
        proof (cases "c < 0x20")
          case True
          with prem nq nbs show ?thesis by simp
        next
          case False
          with prem nq nbs obtain v0 where "parse_string_body cs = Some (v0, r)"
            using map_option_rest by fastforce
          from IH [OF _ this] Cons show ?thesis by simp
        qed
      qed
    qed
  qed
qed

lemma parse_frac_length: "parse_frac s = Some (fr, r) \<Longrightarrow> length r \<le> length s"
  by (auto simp: parse_frac_def Let_def split: list.splits if_splits)

lemma parse_exp_length: "parse_exp s = Some (ex, r) \<Longrightarrow> length r \<le> length s"
  by (auto simp: parse_exp_def Let_def split: list.splits if_splits)

lemma integer_part_length: "length (integer_part s) \<le> length s"
  by (cases s) (auto simp: integer_part_def length_takeWhile_le)

lemma parse_number_length:
  assumes "parse_number s = Some (v, r)"
  shows "length r < length s"
proof -
  define s1 where "s1 = (if s \<noteq> [] \<and> hd s = 0x2D then tl s else s)"
  define ip where "ip = integer_part s1"
  define s2 where "s2 = drop (length ip) s1"
  from assms have ne: "ip \<noteq> []"
    by (auto simp: parse_number_def Let_def ip_def s1_def split: if_splits)
  from assms ne obtain fr s3 ex where
    f: "parse_frac s2 = Some (fr, s3)" and e: "parse_exp s3 = Some (ex, r)"
    unfolding parse_number_def Let_def s1_def [symmetric] ip_def [symmetric] s2_def [symmetric]
    by (auto split: option.splits if_splits)
  have "length ip \<le> length s1" unfolding ip_def by (rule integer_part_length)
  with ne have "length s2 < length s1" by (cases ip) (auto simp: s2_def)
  moreover have "length s1 \<le> length s" by (auto simp: s1_def)
  ultimately show ?thesis
    using parse_frac_length [OF f] parse_exp_length [OF e] by linarith
qed

lemma parse_value_consumes_step:
  assumes IHe: "\<And>s vs r. parse_elements n s = Inr (vs, r) \<Longrightarrow> length r < length s"
    and IHm: "\<And>s ms r. parse_members n s = Inr (ms, r) \<Longrightarrow> length r < length s"
    and p: "parse_value (Suc n) s = Inr (v, r)"
  shows "length r < length s"
proof (cases "skip_ws s")
  case Nil
  with p show ?thesis by simp
next
  case (Cons c cs)
  have len: "length (c # cs) \<le> length s"
    using skip_ws_length [of s] Cons by simp
  show ?thesis
  proof (cases "c = 0x5B")
    case arr: True
    show ?thesis
    proof (cases "skip_ws cs")
      case Nil
      with p Cons arr show ?thesis by simp
    next
      case ds: (Cons d ds)
      have l2: "length (d # ds) \<le> length cs"
        using skip_ws_length [of cs] ds by simp
      show ?thesis
      proof (cases "d = 0x5D")
        case True
        with p Cons arr ds have "r = ds" by simp
        with l2 len show ?thesis by simp
      next
        case False
        with p Cons arr ds obtain vs where "parse_elements n (d # ds) = Inr (vs, r)"
          by (cases "parse_elements n (d # ds)") auto
        from IHe [OF this] l2 len show ?thesis by simp
      qed
    qed
  next
    case narr: False
    show ?thesis
    proof (cases "c = 0x7B")
      case obj: True
      show ?thesis
      proof (cases "skip_ws cs")
        case Nil
        with p Cons narr obj show ?thesis by simp
      next
        case ds: (Cons d ds)
        have l2: "length (d # ds) \<le> length cs"
          using skip_ws_length [of cs] ds by simp
        show ?thesis
        proof (cases "d = 0x7D")
          case True
          with p Cons narr obj ds have "r = ds" by simp
          with l2 len show ?thesis by simp
        next
          case False
          with p Cons narr obj ds obtain ms where "parse_members n (d # ds) = Inr (ms, r)"
            by (cases "parse_members n (d # ds)") auto
          from IHm [OF this] l2 len show ?thesis by simp
        qed
      qed
    next
      case nobj: False
      show ?thesis
      proof (cases "c = 0x22")
        case True
        with p Cons narr nobj obtain x where "parse_string_body cs = Some (x, r)"
          by (cases "parse_string_body cs") auto
        from parse_string_body_length [OF this] len show ?thesis by simp
      next
        case nstr: False
        from p Cons narr nobj nstr
        consider "r = drop 4 (c # cs)" | "r = drop 5 (c # cs)"
          | "parse_number (c # cs) = Some (v, r)"
          by (cases "parse_number (c # cs)") (auto split: if_splits)
        then show ?thesis
        proof cases
          case 1
          with len show ?thesis by simp
        next
          case 2
          with len show ?thesis by simp
        next
          case 3
          from parse_number_length [OF this] len show ?thesis by simp
        qed
      qed
    qed
  qed
qed

lemma parse_elements_consumes_step:
  assumes IHv: "\<And>s v r. parse_value n s = Inr (v, r) \<Longrightarrow> length r < length s"
    and IHe: "\<And>s vs r. parse_elements n s = Inr (vs, r) \<Longrightarrow> length r < length s"
    and p: "parse_elements (Suc n) s = Inr (vs, r)"
  shows "length r < length s"
proof -
  from p obtain v r1 where v: "parse_value n s = Inr (v, r1)"
    by (cases "parse_value n s") auto
  from IHv [OF v] have l1: "length r1 < length s" .
  from p v obtain c cs where sk: "skip_ws r1 = c # cs"
    by (cases "skip_ws r1") auto
  have l2: "length (c # cs) \<le> length r1"
    using skip_ws_length [of r1] sk by simp
  show ?thesis
  proof (cases "c = 0x2C")
    case True
    with p v sk obtain ws where "parse_elements n cs = Inr (ws, r)"
      by (cases "parse_elements n cs") auto
    from IHe [OF this] l1 l2 show ?thesis by simp
  next
    case False
    with p v sk have "r = cs" by (auto split: if_splits)
    with l1 l2 show ?thesis by simp
  qed
qed

lemma parse_members_consumes_step:
  assumes IHv: "\<And>s v r. parse_value n s = Inr (v, r) \<Longrightarrow> length r < length s"
    and IHm: "\<And>s ms r. parse_members n s = Inr (ms, r) \<Longrightarrow> length r < length s"
    and p: "parse_members (Suc n) s = Inr (ms, r)"
  shows "length r < length s"
proof -
  from p obtain q qs where sk: "skip_ws s = q # qs"
    by (cases "skip_ws s") auto
  have l0: "length (q # qs) \<le> length s"
    using skip_ws_length [of s] sk by simp
  from p sk have q: "q = 0x22" by (auto split: if_splits)
  from p sk q obtain k r0 where k: "parse_string_body qs = Some (k, r0)"
    by (cases "parse_string_body qs") auto
  from parse_string_body_length [OF k] have l1: "length r0 < length qs" .
  from p sk q k obtain c cs where sk1: "skip_ws r0 = c # cs"
    by (cases "skip_ws r0") auto
  have l2: "length (c # cs) \<le> length r0"
    using skip_ws_length [of r0] sk1 by simp
  from p sk q k sk1 have c: "c = 0x3A" by (auto split: if_splits)
  from p sk q k sk1 c obtain v r1 where v: "parse_value n cs = Inr (v, r1)"
    by (cases "parse_value n cs") auto
  from IHv [OF v] have l3: "length r1 < length cs" .
  from p sk q k sk1 c v obtain d ds where sk2: "skip_ws r1 = d # ds"
    by (cases "skip_ws r1") auto
  have l4: "length (d # ds) \<le> length r1"
    using skip_ws_length [of r1] sk2 by simp
  show ?thesis
  proof (cases "d = 0x2C")
    case True
    with p sk q k sk1 c v sk2 obtain ws where "parse_members n ds = Inr (ws, r)"
      by (cases "parse_members n ds") auto
    from IHm [OF this] l0 l1 l2 l3 l4 show ?thesis by simp
  next
    case False
    with p sk q k sk1 c v sk2 have "r = ds" by (auto split: if_splits)
    with l0 l1 l2 l3 l4 show ?thesis by simp
  qed
qed

lemma parse_consumes:
  "(\<forall>s v r. parse_value n s = Inr (v, r) \<longrightarrow> length r < length s) \<and>
   (\<forall>s vs r. parse_elements n s = Inr (vs, r) \<longrightarrow> length r < length s) \<and>
   (\<forall>s ms r. parse_members n s = Inr (ms, r) \<longrightarrow> length r < length s)"
proof (induction n)
  case 0
  show ?case by simp
next
  case (Suc n)
  then have v: "\<And>s v r. parse_value n s = Inr (v, r) \<Longrightarrow> length r < length s"
    and e: "\<And>s vs r. parse_elements n s = Inr (vs, r) \<Longrightarrow> length r < length s"
    and m: "\<And>s ms r. parse_members n s = Inr (ms, r) \<Longrightarrow> length r < length s"
    by blast+
  show ?case
  proof (intro conjI allI impI)
    fix s x r
    assume "parse_value (Suc n) s = Inr (x, r)"
    with e m show "length r < length s"
      by (rule parse_value_consumes_step [where n = n])
  next
    fix s xs r
    assume "parse_elements (Suc n) s = Inr (xs, r)"
    with v e show "length r < length s"
      by (rule parse_elements_consumes_step [where n = n])
  next
    fix s xs r
    assume "parse_members (Suc n) s = Inr (xs, r)"
    with v m show "length r < length s"
      by (rule parse_members_consumes_step [where n = n])
  qed
qed

lemma parse_value_consumes: "parse_value n s = Inr (v, r) \<Longrightarrow> length r < length s"
  using parse_consumes [of n] by blast

lemma error_cases: "e \<noteq> OutOfFuel \<Longrightarrow> e = SyntaxError"
  by (cases e) simp_all

lemma parse_value_fuel_step:
  assumes Fe: "\<And>s. 2 * length s + 2 \<le> n \<Longrightarrow> parse_elements n s \<noteq> Inl OutOfFuel"
    and Fm: "\<And>s. 2 * length s + 2 \<le> n \<Longrightarrow> parse_members n s \<noteq> Inl OutOfFuel"
    and f: "2 * length s + 1 \<le> Suc n"
  shows "parse_value (Suc n) s \<noteq> Inl OutOfFuel"
proof (cases "skip_ws s")
  case Nil
  then show ?thesis by simp
next
  case (Cons c cs)
  have len: "length (c # cs) \<le> length s"
    using skip_ws_length [of s] Cons by simp
  have sub: "2 * length (d # ds) + 2 \<le> n" if "skip_ws cs = d # ds" for d ds
    using skip_ws_length [of cs] that len f by simp
  show ?thesis
  proof (cases "c = 0x5B")
    case arr: True
    show ?thesis
    proof (cases "skip_ws cs")
      case Nil
      with Cons arr show ?thesis by simp
    next
      case ds: (Cons d ds)
      show ?thesis
      proof (cases "parse_elements n (d # ds)")
        case (Inl e)
        with Fe [OF sub [OF ds]] have "e = SyntaxError" using error_cases by auto
        with Inl Cons arr ds show ?thesis by simp
      next
        case (Inr p)
        with Cons arr ds show ?thesis by (cases p) simp
      qed
    qed
  next
    case narr: False
    show ?thesis
    proof (cases "c = 0x7B")
      case obj: True
      show ?thesis
      proof (cases "skip_ws cs")
        case Nil
        with Cons narr obj show ?thesis by simp
      next
        case ds: (Cons d ds)
        show ?thesis
        proof (cases "parse_members n (d # ds)")
          case (Inl e)
          with Fm [OF sub [OF ds]] have "e = SyntaxError" using error_cases by auto
          with Inl Cons narr obj ds show ?thesis by simp
        next
          case (Inr p)
          with Cons narr obj ds show ?thesis by (cases p) simp
        qed
      qed
    next
      case nobj: False
      show ?thesis
      proof (cases "c = 0x22")
        case True
        with Cons narr nobj show ?thesis
          by (cases "parse_string_body cs") auto
      next
        case False
        with Cons narr nobj show ?thesis
          by (cases "parse_number (c # cs)") auto
      qed
    qed
  qed
qed

lemma parse_elements_fuel_step:
  assumes Fv: "\<And>s. 2 * length s + 1 \<le> n \<Longrightarrow> parse_value n s \<noteq> Inl OutOfFuel"
    and Fe: "\<And>s. 2 * length s + 2 \<le> n \<Longrightarrow> parse_elements n s \<noteq> Inl OutOfFuel"
    and f: "2 * length s + 2 \<le> Suc n"
  shows "parse_elements (Suc n) s \<noteq> Inl OutOfFuel"
proof (cases "parse_value n s")
  case (Inl e)
  from f have "2 * length s + 1 \<le> n" by simp
  from Fv [OF this] Inl have "e = SyntaxError" using error_cases by auto
  with Inl show ?thesis by simp
next
  case (Inr p)
  obtain v r1 where p: "p = (v, r1)" by (cases p)
  from parse_value_consumes Inr p have l1: "length r1 < length s" by blast
  show ?thesis
  proof (cases "skip_ws r1")
    case Nil
    with Inr p show ?thesis by simp
  next
    case (Cons c cs)
    have l2: "length (c # cs) \<le> length r1"
      using skip_ws_length [of r1] Cons by simp
    from l1 l2 f have "2 * length cs + 2 \<le> n" by simp
    from Fe [OF this] have "x = SyntaxError" if "parse_elements n cs = Inl x" for x
      using that error_cases by auto
    with Inr p Cons show ?thesis
      by (cases "parse_elements n cs") auto
  qed
qed

lemma parse_members_fuel_step:
  assumes Fv: "\<And>s. 2 * length s + 1 \<le> n \<Longrightarrow> parse_value n s \<noteq> Inl OutOfFuel"
    and Fm: "\<And>s. 2 * length s + 2 \<le> n \<Longrightarrow> parse_members n s \<noteq> Inl OutOfFuel"
    and f: "2 * length s + 2 \<le> Suc n"
  shows "parse_members (Suc n) s \<noteq> Inl OutOfFuel"
proof (cases "skip_ws s")
  case Nil
  then show ?thesis by simp
next
  case (Cons q qs)
  have l0: "length (q # qs) \<le> length s"
    using skip_ws_length [of s] Cons by simp
  show ?thesis
  proof (cases "parse_string_body qs")
    case None
    with Cons show ?thesis by simp
  next
    case (Some kr)
    obtain k r0 where kr: "kr = (k, r0)" by (cases kr)
    from parse_string_body_length Some kr have l1: "length r0 < length qs" by blast
    show ?thesis
    proof (cases "skip_ws r0")
      case Nil
      with Cons Some kr show ?thesis by simp
    next
      case cs: (Cons c cs)
      have l2: "length (c # cs) \<le> length r0"
        using skip_ws_length [of r0] cs by simp
      show ?thesis
      proof (cases "parse_value n cs")
        case (Inl e)
        from l0 l1 l2 f have "2 * length cs + 1 \<le> n" by simp
        from Fv [OF this] Inl have "e = SyntaxError" using error_cases by auto
        with Inl Cons Some kr cs show ?thesis by simp
      next
        case (Inr p)
        obtain v r1 where p: "p = (v, r1)" by (cases p)
        from parse_value_consumes Inr p have l3: "length r1 < length cs" by blast
        show ?thesis
        proof (cases "skip_ws r1")
          case Nil
          with Inr p Cons Some kr cs show ?thesis by simp
        next
          case ds: (Cons d ds)
          have l4: "length (d # ds) \<le> length r1"
            using skip_ws_length [of r1] ds by simp
          from l0 l1 l2 l3 l4 f have "2 * length ds + 2 \<le> n" by simp
          from Fm [OF this] have "x = SyntaxError" if "parse_members n ds = Inl x" for x
            using that error_cases by auto
          with Inr p Cons Some kr cs ds show ?thesis
            by (cases "parse_members n ds") auto
        qed
      qed
    qed
  qed
qed

lemma parse_fuel:
  "(\<forall>s. 2 * length s + 1 \<le> n \<longrightarrow> parse_value n s \<noteq> Inl OutOfFuel) \<and>
   (\<forall>s. 2 * length s + 2 \<le> n \<longrightarrow> parse_elements n s \<noteq> Inl OutOfFuel) \<and>
   (\<forall>s. 2 * length s + 2 \<le> n \<longrightarrow> parse_members n s \<noteq> Inl OutOfFuel)"
proof (induction n)
  case 0
  show ?case by simp
next
  case (Suc n)
  then have v: "\<And>s. 2 * length s + 1 \<le> n \<Longrightarrow> parse_value n s \<noteq> Inl OutOfFuel"
    and e: "\<And>s. 2 * length s + 2 \<le> n \<Longrightarrow> parse_elements n s \<noteq> Inl OutOfFuel"
    and m: "\<And>s. 2 * length s + 2 \<le> n \<Longrightarrow> parse_members n s \<noteq> Inl OutOfFuel"
    by blast+
  show ?case
  proof (intro conjI allI impI)
    fix s :: jsstring
    assume "2 * length s + 1 \<le> Suc n"
    with e m show "parse_value (Suc n) s \<noteq> Inl OutOfFuel"
      by (rule parse_value_fuel_step [where n = n])
  next
    fix s :: jsstring
    assume "2 * length s + 2 \<le> Suc n"
    with v e show "parse_elements (Suc n) s \<noteq> Inl OutOfFuel"
      by (rule parse_elements_fuel_step [where n = n])
  next
    fix s :: jsstring
    assume "2 * length s + 2 \<le> Suc n"
    with v m show "parse_members (Suc n) s \<noteq> Inl OutOfFuel"
      by (rule parse_members_fuel_step [where n = n])
  qed
qed

lemma JSON_parse_fuel: "JSON_parse s \<noteq> Inl OutOfFuel"
proof -
  have "parse_value (2 * length s + 1) s \<noteq> Inl OutOfFuel"
    using parse_fuel [of "2 * length s + 1"] by blast
  then show ?thesis
    by (cases "parse_value (2 * length s + 1) s")
      (auto simp: JSON_parse_def simp del: parse_value.simps split: if_splits)
qed

subsection \<open>A serialized value is read back\<close>






















declare parse_value.simps [simp del] parse_elements.simps [simp del]
  parse_members.simps [simp del]



subsection \<open>A serialized list of tasks is read back\<close>





lemma category_of_name: "category_of_name (category_name c) = Some c"
  by (cases c) (simp_all add: category_of_name_def category_name_def js_def)

lemma priority_of_name: "priority_of_name (priority_name p) = Some p"
  by (cases p) (simp_all add: priority_of_name_def priority_name_def js_def)








subsection \<open>Loading\<close>

lemma JSON_parse_broken: "JSON_parse broken_snapshot = Inl SyntaxError"
  by code_simp

lemma JSON_parse_number: "JSON_parse number_snapshot = Inr (JNum 5)"
  by code_simp






subsection \<open>The render after a submission\<close>



subsection \<open>The examples of submissions\<close>

text \<open>
  The date \<^verbatim>\<open>+275760-09-14\<close> is in the format of the language, so that every engine
  reads it in the same way, as a time beyond the range of \<^verbatim>\<open>TimeClip\<close>; and what is
  displayed of the list with the new task is decided by the status filter and the
  empty search term.  The facts below about the two submissions with that date hold for
  every engine.  A year of five digits without a sign, as in \<^verbatim>\<open>10000-01-01\<close>, is not in
  the format: such a date is what the engine reads.
\<close>

lemma Date_parse_five_digit_year:
  "Date_parse E (js ''10000-01-01'') =
     (case Date_parse_other E (js ''10000-01-01'') of None \<Rightarrow> None | Some t \<Rightarrow> TimeClip t)"
  by (simp add: Date_parse_def iso_time_def parse_year_def decimal_def is_digit_def
      digits_value_def digit_value_def parse_month_day_def js_def)

lemma Date_parse_last_day: "Date_parse E (js ''+275760-09-13'') = Some 8640000000000000"
  by (simp add: date_eval)
















section \<open>Properties of the program\<close>

subsection \<open>Creating a task\<close>

text \<open>
  C2 as stated does not hold: the text of the task that \<open>handleSubmit\<close> appends is not
  the trimmed input.  With the input \<^verbatim>\<open>" buy milk "\<close> (trimmed, it is not empty) the
  stored text differs from the trimmed input.
\<close>

theorem handleSubmit_text_not_trimmed:
  "trim (inputValue padded_input) \<noteq> [] \<and>
   text' (last (todos (handleSubmit strict_engine 1700000000000 padded_input))) \<noteq>
     trim (inputValue padded_input)"
  by (simp add: padded_input_def initial_def todos_handleSubmit trim_def js_def is_white_def)

text \<open>
  C2, amended: for every input whose trim is not empty, \<open>handleSubmit\<close> appends one task
  whose text is the input as it was entered, untrimmed.  That text is not empty and its
  trim is not empty; it keeps the white space around the input.
\<close>

theorem handleSubmit_text:
  assumes "trim (inputValue s) \<noteq> []"
  shows "todos (handleSubmit E now s) = todos s @ [last (todos (handleSubmit E now s))] \<and>
         text' (last (todos (handleSubmit E now s))) = inputValue s \<and>
         text' (last (todos (handleSubmit E now s))) \<noteq> [] \<and>
         trim (text' (last (todos (handleSubmit E now s)))) \<noteq> []"
  using assms by (auto simp: todos_handleSubmit trim_Nil)

theorem handleSubmit_text_witness:
  "trim (inputValue padded_input) \<noteq> [] \<and>
   text' (last (todos (handleSubmit strict_engine 1700000000000 padded_input))) = js '' buy milk ''"
proof -
  have h: "trim (inputValue padded_input) \<noteq> []"
    by (simp add: padded_input_def initial_def trim_def js_def is_white_def)
  from handleSubmit_text [OF h, of strict_engine 1700000000000] h show ?thesis
    by (simp add: padded_input_def initial_def)
qed




subsection \<open>Toggling and deleting\<close>

text \<open>
  C6: toggling the same id twice gives back the state it started from, whatever the
  list and the id: the \<open>completed\<close> flag of every task with that id, and the list as a
  whole, are as before.
\<close>

theorem toggleTodo_involution: "toggleTodo i (toggleTodo i s) = s"
  by (simp add: toggleTodo_def o_def map_idI)

text \<open>
  C7: \<open>toggleTodo i\<close> keeps the length and the order of the list; at every position
  the id, text, category, priority and due date are as before; a task with id \<open>i\<close>
  has its \<open>completed\<close> flag negated, a task with another id is unchanged; and no other
  state cell changes.
\<close>

theorem toggleTodo_frame:
  "length (todos (toggleTodo i s)) = length (todos s) \<and>
   (\<forall>k < length (todos s).
      id' (todos (toggleTodo i s) ! k) = id' (todos s ! k) \<and>
      text' (todos (toggleTodo i s) ! k) = text' (todos s ! k) \<and>
      category (todos (toggleTodo i s) ! k) = category (todos s ! k) \<and>
      priority (todos (toggleTodo i s) ! k) = priority (todos s ! k) \<and>
      dueDate (todos (toggleTodo i s) ! k) = dueDate (todos s ! k) \<and>
      (id' (todos s ! k) = i \<longrightarrow>
         completed (todos (toggleTodo i s) ! k) = (\<not> completed (todos s ! k))) \<and>
      (id' (todos s ! k) \<noteq> i \<longrightarrow> todos (toggleTodo i s) ! k = todos s ! k)) \<and>
   toggleTodo i s = s\<lparr>todos := todos (toggleTodo i s)\<rparr>"
  by (simp add: toggleTodo_def)

theorem toggleTodo_frame_witness:
  "0 < length (todos two_tasks) \<and> id' (todos two_tasks ! 0) = 1 \<and>
   completed (todos (toggleTodo 1 two_tasks) ! 0) = (\<not> completed (todos two_tasks ! 0)) \<and>
   text' (todos (toggleTodo 1 two_tasks) ! 0) = text' (todos two_tasks ! 0) \<and>
   1 < length (todos two_tasks) \<and> id' (todos two_tasks ! 1) \<noteq> 1 \<and>
   todos (toggleTodo 1 two_tasks) ! 1 = todos two_tasks ! 1"
proof -
  have l: "0 < length (todos two_tasks)" "1 < length (todos two_tasks)"
    by (simp_all add: two_tasks_def)
  have i0: "id' (todos two_tasks ! 0) = 1"
    by (simp add: two_tasks_def task_A_def)
  have i1: "id' (todos two_tasks ! 1) \<noteq> 1"
    by (simp add: two_tasks_def task_B_def)
  from toggleTodo_frame [of 1 two_tasks] have
    f: "\<forall>k < length (todos two_tasks).
      text' (todos (toggleTodo 1 two_tasks) ! k) = text' (todos two_tasks ! k) \<and>
      (id' (todos two_tasks ! k) = 1 \<longrightarrow>
         completed (todos (toggleTodo 1 two_tasks) ! k) =
           (\<not> completed (todos two_tasks ! k))) \<and>
      (id' (todos two_tasks ! k) \<noteq> 1 \<longrightarrow>
         todos (toggleTodo 1 two_tasks) ! k = todos two_tasks ! k)"
    by blast
  from f l(1) i0
  have a: "completed (todos (toggleTodo 1 two_tasks) ! 0) = (\<not> completed (todos two_tasks ! 0))"
    and b: "text' (todos (toggleTodo 1 two_tasks) ! 0) = text' (todos two_tasks ! 0)"
    by blast+
  from f l(2) i1 have c: "todos (toggleTodo 1 two_tasks) ! 1 = todos two_tasks ! 1"
    by blast
  from l i0 i1 a b c show ?thesis by blast
qed

text \<open>
  C8: after \<open>deleteTodo i\<close>, \<open>toggleTodo i\<close> changes nothing (and calls no
  \<^verbatim>\<open>confetti\<close>); and when no task of the list has the id \<open>i\<close>, \<open>toggleTodo i\<close> and
  \<open>deleteTodo i\<close> both leave the state as it is.  Neither handler has a failing branch:
  both are total functions of the state.
\<close>

theorem missing_entity_noop:
  "toggleTodo i (deleteTodo i s) = deleteTodo i s \<and>
   \<not> toggleTodo_confetti i (deleteTodo i s) \<and>
   (i \<notin> id' ` set (todos s) \<longrightarrow>
      toggleTodo i s = s \<and> deleteTodo i s = s \<and> \<not> toggleTodo_confetti i s)"
proof -
  have "map (\<lambda>t. if id' t = i then t\<lparr>completed := \<not> completed t\<rparr> else t)
          (filter (\<lambda>t. id' t \<noteq> i) xs) = filter (\<lambda>t. id' t \<noteq> i) xs" for xs :: "todo list"
    by (rule map_idI) simp
  then have a: "toggleTodo i (deleteTodo i s) = deleteTodo i s"
    by (simp add: toggleTodo_def deleteTodo_def)
  have "find (\<lambda>t. id' t = i) (filter (\<lambda>t. id' t \<noteq> i) xs) = None" for xs :: "todo list"
    by (simp add: find_None_iff)
  then have b: "\<not> toggleTodo_confetti i (deleteTodo i s)"
    by (simp add: toggleTodo_confetti_def deleteTodo_def)
  have c: "toggleTodo i s = s \<and> deleteTodo i s = s \<and> \<not> toggleTodo_confetti i s"
    if h: "i \<notin> id' ` set (todos s)"
  proof -
    from h have ne: "\<forall>t\<in>set (todos s). id' t \<noteq> i" by auto
    then have "map (\<lambda>t. if id' t = i then t\<lparr>completed := \<not> completed t\<rparr> else t) (todos s) =
        todos s"
      by (simp add: map_idI)
    moreover from ne have "filter (\<lambda>t. id' t \<noteq> i) (todos s) = todos s"
      by simp
    moreover from ne have "find (\<lambda>t. id' t = i) (todos s) = None"
      by (simp add: find_None_iff)
    ultimately show ?thesis
      by (simp add: toggleTodo_def deleteTodo_def toggleTodo_confetti_def)
  qed
  from a b c show ?thesis by blast
qed

theorem missing_entity_noop_witness:
  "99 \<notin> id' ` set (todos two_tasks) \<and> toggleTodo 99 two_tasks = two_tasks \<and>
   deleteTodo 99 two_tasks = two_tasks \<and> \<not> toggleTodo_confetti 99 two_tasks \<and>
   toggleTodo 1 (deleteTodo 1 two_tasks) = deleteTodo 1 two_tasks"
proof -
  have h: "99 \<notin> id' ` set (todos two_tasks)"
    by (simp add: two_tasks_def task_A_def task_B_def)
  from missing_entity_noop [of 99 two_tasks] missing_entity_noop [of 1 two_tasks] h
  show ?thesis by blast
qed

text \<open>
  C10: after \<open>deleteTodo i\<close> no task of the list has the id \<open>i\<close> (every task with that
  id is gone, however many there were); what is left is the tasks with another id, each
  as often as before, in the order they had; and no other state cell changes.
\<close>

theorem deleteTodo_removes_all_keeps_order:
  "i \<notin> id' ` set (todos (deleteTodo i s)) \<and>
   subseq (todos (deleteTodo i s)) (todos s) \<and>
   mset (todos (deleteTodo i s)) = filter_mset (\<lambda>t. id' t \<noteq> i) (mset (todos s)) \<and>
   deleteTodo i s = s\<lparr>todos := todos (deleteTodo i s)\<rparr>"
  by (auto simp: deleteTodo_def)

subsection \<open>The displayed list\<close>

text \<open>
  C5: for the tasks A (low, due 2024-03-01), B (high, due 2024-03-05) and C (high, no due
  date), whatever their other fields, the displayed list of \<open>[A, B, C]\<close> with an empty
  search term and the filter \<open>all\<close> is \<open>[B, C, A]\<close>, and so is the result of any stable
  sort of \<open>[A, B, C]\<close> by the comparison function.  In general the displayed list is
  ascending in the rank of the priority, and the ranks are high 0, medium 1, low 2;
  tasks of different priority compare by the difference of their ranks; tasks of the
  same priority compare by the difference of their times when both have a due date, and
  as equal when either has none; and a list whose elements all compare as equal keeps
  its order.
\<close>

theorem view_pipeline_order:
  fixes s s' :: app and a b :: todo
    and ia ib ic :: int and ta tb tc :: jsstring and ca cb cc :: bool
    and ka kb kc :: category and E :: engine
  defines "A \<equiv> \<lparr>id' = ia, text' = ta, completed = ca, category = ka, priority = Low,
                 dueDate = DueDate (Date_parse E (js ''2024-03-01''))\<rparr>"
    and "B \<equiv> \<lparr>id' = ib, text' = tb, completed = cb, category = kb, priority = High,
               dueDate = DueDate (Date_parse E (js ''2024-03-05''))\<rparr>"
    and "C \<equiv> \<lparr>id' = ic, text' = tc, completed = cc, category = kc, priority = High,
               dueDate = DueUndefined\<rparr>"
  shows
  "filteredTodos E (s\<lparr>todos := [A, B, C], searchTerm := [], statusFilter := Filter_all\<rparr>) =
     [B, C, A] \<and>
   (stable_sorting (compareTodos E) [A, B, C] ys \<longrightarrow> ys = [B, C, A]) \<and>
   sorted (map (\<lambda>t. priorityOrder (priority t)) (filteredTodos E s')) \<and>
   priorityOrder High = 0 \<and> priorityOrder Medium = 1 \<and> priorityOrder Low = 2 \<and>
   (priority a \<noteq> priority b \<longrightarrow>
      compareTodos E a b = Some (priorityOrder (priority a) - priorityOrder (priority b))) \<and>
   (priority a = priority b \<and> truthy (dueDate a) \<and> truthy (dueDate b) \<longrightarrow>
      compareTodos E a b = num_minus (getTime E (dueDate a)) (getTime E (dueDate b))) \<and>
   (priority a = priority b \<and> (\<not> truthy (dueDate a) \<or> \<not> truthy (dueDate b)) \<longrightarrow>
      compareTodos E a b = Some 0) \<and>
   ((\<forall>x\<in>set xs. \<forall>y\<in>set xs. SortCompare (compareTodos E) x y = 0) \<longrightarrow>
      sort_by (compareTodos E) xs = xs)"
proof -
  have p: "priority A = Low" "priority B = High" "priority C = High" "\<not> truthy (dueDate C)"
    by (simp_all add: A_def B_def C_def truthy_def)
  have bc: "B \<noteq> C" by (simp add: B_def C_def)
  have "sort_by (compareTodos E) [A, B, C] = [B, C, A]"
    using example_compare [OF p] by simp
  then have view: "filteredTodos E (s\<lparr>todos := [A, B, C], searchTerm := [],
      statusFilter := Filter_all\<rparr>) = [B, C, A]"
    by (simp add: filteredTodos_def matches_search_empty matches_status_def)
  have any: "ys = [B, C, A]" if "stable_sorting (compareTodos E) [A, B, C] ys"
    using p bc that by (rule any_stable_sort_example)
  have asc: "sorted (map (\<lambda>t. priorityOrder (priority t)) (filteredTodos E s'))"
    unfolding filteredTodos_def by (rule sorted_rank_sort_by)
  have ranks: "priorityOrder High = 0 \<and> priorityOrder Medium = 1 \<and> priorityOrder Low = 2"
    by (simp add: priorityOrder_def)
  have stable: "sort_by (compareTodos E) xs = xs"
    if "\<forall>x\<in>set xs. \<forall>y\<in>set xs. SortCompare (compareTodos E) x y = 0"
    using that by (intro sort_by_all_equal) simp
  from view any asc ranks compareTodos_cases [of a b] stable show ?thesis
    by blast
qed

theorem view_pipeline_order_witness:
  "filteredTodos strict_engine (two_tasks\<lparr>todos := [task_A, task_B, task_C], searchTerm := [],
      statusFilter := Filter_all\<rparr>) = [task_B, task_C, task_A] \<and>
   stable_sorting (compareTodos strict_engine) [task_A, task_B, task_C] [task_B, task_C, task_A] \<and>
   priority task_A \<noteq> priority task_B \<and> compareTodos strict_engine task_A task_B = Some 2 \<and>
   priority task_B = priority task_D \<and> truthy (dueDate task_B) \<and> truthy (dueDate task_D) \<and>
   compareTodos strict_engine task_B task_D = Some 259200000 \<and>
   priority task_B = priority task_C \<and> \<not> truthy (dueDate task_C) \<and>
   compareTodos strict_engine task_B task_C = Some 0 \<and>
   SortCompare (compareTodos strict_engine) task_C task_C = 0 \<and>
   sort_by (compareTodos strict_engine) [task_C, task_C] = [task_C, task_C]"
proof -
  have pAB: "priority task_A \<noteq> priority task_B"
    by (simp add: task_A_def task_B_def)
  have pBD: "priority task_B = priority task_D \<and> truthy (dueDate task_B) \<and>
      truthy (dueDate task_D)"
    by (simp add: task_B_def task_D_def truthy_def js_def)
  have pBC: "priority task_B = priority task_C \<and> \<not> truthy (dueDate task_C)"
    by (simp add: task_B_def task_C_def truthy_def)
  have tB: "getTime strict_engine (dueDate task_B) = Some 1709596800000"
    by (simp add: task_B_def getTime_def Date_parse_2024_03_05)
  have tD: "getTime strict_engine (dueDate task_D) = Some 1709337600000"
    by (simp add: task_D_def getTime_def date_eval)
  have eqC: "\<forall>x\<in>set [task_C, task_C]. \<forall>y\<in>set [task_C, task_C].
      SortCompare (compareTodos strict_engine) x y = 0"
    by (simp add: SortCompare_def compareTodos_def task_C_def truthy_def)
  have rA: "priorityOrder (priority task_A) - priorityOrder (priority task_B) = 2"
    by (simp add: task_A_def task_B_def priorityOrder_def)
  have p: "priority task_A = Low" "priority task_B = High" "priority task_C = High"
    "\<not> truthy (dueDate task_C)"
    by (simp_all add: task_A_def task_B_def task_C_def truthy_def)
  have "sort_by (compareTodos strict_engine) [task_A, task_B, task_C] = [task_B, task_C, task_A]"
    using example_compare [OF p, of strict_engine] by simp
  with sort_by_example_stable [OF p, of strict_engine]
  have st: "stable_sorting (compareTodos strict_engine) [task_A, task_B, task_C] [task_B, task_C, task_A]"
    by simp
  note ex = view_pipeline_order [where ia = 1 and ta = "js ''A''" and ca = False
      and ka = Other and ib = 2 and tb = "js ''B''" and cb = False and kb = Other
      and ic = 3 and tc = "js ''C''" and cc = True and kc = Work and s = two_tasks
      and E = strict_engine,
      folded task_A_def task_B_def task_C_def]
  note ab = ex [where a = task_A and b = task_B]
  note bd = ex [where a = task_B and b = task_D]
  note bc = ex [where a = task_B and b = task_C and xs = "[task_C, task_C]"
      and ys = "[task_B, task_C, task_A]"]
  from ab have 0: "filteredTodos strict_engine (two_tasks\<lparr>todos := [task_A, task_B, task_C],
      searchTerm := [], statusFilter := Filter_all\<rparr>) = [task_B, task_C, task_A]" by blast
  from ab pAB rA have 1: "compareTodos strict_engine task_A task_B = Some 2" by simp
  from bd pBD tB tD have 2: "compareTodos strict_engine task_B task_D = Some 259200000"
    by (simp add: num_minus_def)
  from bc pBC have 3: "compareTodos strict_engine task_B task_C = Some 0" by simp
  from bc eqC have 4: "sort_by (compareTodos strict_engine) [task_C, task_C] = [task_C, task_C]" by blast
  from eqC have 5: "SortCompare (compareTodos strict_engine) task_C task_C = 0" by simp
  from 0 st pAB pBD pBC 1 2 3 4 5 show ?thesis by blast
qed

text \<open>
  C9: for every list and search term, write \<open>base\<close> for the tasks that match the search
  term.  The filter \<open>all\<close> displays every task of \<open>base\<close>, \<open>active\<close> exactly those with
  \<open>completed = False\<close>, \<open>completed\<close> exactly those with \<open>completed = True\<close> (each as
  often as it is in \<open>base\<close>); no task is displayed under both \<open>active\<close> and \<open>completed\<close>,
  and the two together are the tasks displayed under \<open>all\<close>.
\<close>

theorem status_filter_partition:
  "mset (filteredTodos E (s\<lparr>statusFilter := Filter_all\<rparr>)) =
     mset (filter (matches_search E (searchTerm s)) (todos s)) \<and>
   mset (filteredTodos E (s\<lparr>statusFilter := Filter_active\<rparr>)) =
     filter_mset (\<lambda>t. \<not> completed t)
       (mset (filter (matches_search E (searchTerm s)) (todos s))) \<and>
   mset (filteredTodos E (s\<lparr>statusFilter := Filter_completed\<rparr>)) =
     filter_mset completed (mset (filter (matches_search E (searchTerm s)) (todos s))) \<and>
   set (filteredTodos E (s\<lparr>statusFilter := Filter_active\<rparr>)) \<inter>
     set (filteredTodos E (s\<lparr>statusFilter := Filter_completed\<rparr>)) = {} \<and>
   mset (filteredTodos E (s\<lparr>statusFilter := Filter_active\<rparr>)) +
     mset (filteredTodos E (s\<lparr>statusFilter := Filter_completed\<rparr>)) =
     mset (filteredTodos E (s\<lparr>statusFilter := Filter_all\<rparr>))"
proof -
  let ?base = "filter (matches_search E (searchTerm s)) (todos s)"
  have all: "mset (filteredTodos E (s\<lparr>statusFilter := Filter_all\<rparr>)) = mset ?base"
    by (simp add: filteredTodos_def mset_sort_by matches_status_def)
  have act: "mset (filteredTodos E (s\<lparr>statusFilter := Filter_active\<rparr>)) =
      filter_mset (\<lambda>t. \<not> completed t) (mset ?base)"
    by (simp add: filteredTodos_def mset_sort_by matches_status_def filter_filter_mset)
  have com: "mset (filteredTodos E (s\<lparr>statusFilter := Filter_completed\<rparr>)) =
      filter_mset completed (mset ?base)"
    by (simp add: filteredTodos_def mset_sort_by matches_status_def filter_filter_mset)
  have sa: "set (filteredTodos E (s\<lparr>statusFilter := Filter_active\<rparr>)) =
      {t \<in> set ?base. \<not> completed t}"
    using arg_cong [OF act, of set_mset] by auto
  have sc: "set (filteredTodos E (s\<lparr>statusFilter := Filter_completed\<rparr>)) =
      {t \<in> set ?base. completed t}"
    using arg_cong [OF com, of set_mset] by auto
  have disj: "set (filteredTodos E (s\<lparr>statusFilter := Filter_active\<rparr>)) \<inter>
     set (filteredTodos E (s\<lparr>statusFilter := Filter_completed\<rparr>)) = {}"
    unfolding sa sc by auto
  have un: "mset (filteredTodos E (s\<lparr>statusFilter := Filter_active\<rparr>)) +
     mset (filteredTodos E (s\<lparr>statusFilter := Filter_completed\<rparr>)) =
     mset (filteredTodos E (s\<lparr>statusFilter := Filter_all\<rparr>))"
    unfolding act com all by (simp add: multiset_eq_iff)
  from all act com disj un show ?thesis by blast
qed

subsection \<open>The list in storage\<close>

text \<open>
  C1 as stated does not hold: \<open>load\<close> has no handler around \<^verbatim>\<open>JSON.parse\<close>.  With the
  stored string \<^verbatim>\<open>{not json\<close> the \<^verbatim>\<open>SyntaxError\<close> of \<^verbatim>\<open>JSON.parse\<close> leaves \<open>load\<close>, where
  an absent key gives the empty list.
\<close>

theorem load_corrupt_snapshot_raises:
  "load (Some broken_snapshot) = Inl SyntaxError \<and> load None = Inr None"
  by (simp add: load_def JSON_parse_broken) (simp add: broken_snapshot_def js_def)

text \<open>
  C1, amended: \<open>load\<close> leaves the list empty when the key is absent or holds the empty
  string.  It fails in one case only, with the \<^verbatim>\<open>SyntaxError\<close> of \<^verbatim>\<open>JSON.parse\<close>, which it
  does not catch: when the stored string is not empty and is not valid JSON.  When the
  stored string is valid JSON, the state is set to the value read, whatever that value
  is; it is not compared with the structure of a list of tasks.
\<close>

theorem load_outcomes:
  "load None = Inr None \<and> load (Some []) = Inr None \<and>
   (load stored = Inl e \<longrightarrow>
      e = SyntaxError \<and>
      (\<exists>saved. stored = Some saved \<and> saved \<noteq> [] \<and> JSON_parse saved = Inl SyntaxError)) \<and>
   (saved \<noteq> [] \<and> JSON_parse saved = Inl SyntaxError \<longrightarrow>
      load (Some saved) = Inl SyntaxError) \<and>
   (saved \<noteq> [] \<and> JSON_parse saved = Inr v \<longrightarrow> load (Some saved) = Inr (Some v))"
proof -
  have a: "load None = Inr None" "load (Some []) = Inr None"
    by (simp_all add: load_def)
  have b: "e = SyntaxError \<and>
      (\<exists>saved. stored = Some saved \<and> saved \<noteq> [] \<and> JSON_parse saved = Inl SyntaxError)"
    if l: "load stored = Inl e"
  proof -
    from l obtain x where s: "stored = Some x" and ne: "x \<noteq> []"
      by (cases stored) (auto simp: load_def split: if_splits)
    from l s ne have p: "JSON_parse x = Inl e"
      by (cases "JSON_parse x") (auto simp: load_def)
    with JSON_parse_fuel [of x] have "e = SyntaxError"
      by (cases e) auto
    with s ne p show ?thesis by simp
  qed
  have c: "load (Some saved) = Inl SyntaxError"
    if "saved \<noteq> [] \<and> JSON_parse saved = Inl SyntaxError"
    using that by (simp add: load_def)
  have d: "load (Some saved) = Inr (Some v)" if "saved \<noteq> [] \<and> JSON_parse saved = Inr v"
    using that by (simp add: load_def)
  from a b c d show ?thesis by blast
qed

theorem load_outcomes_witness:
  "load (Some broken_snapshot) = Inl SyntaxError \<and>
   broken_snapshot \<noteq> [] \<and> JSON_parse broken_snapshot = Inl SyntaxError \<and>
   number_snapshot \<noteq> [] \<and> JSON_parse number_snapshot = Inr (JNum 5) \<and>
   load (Some number_snapshot) = Inr (Some (JNum 5)) \<and> todos_of_json (JNum 5) = None"
proof -
  have b: "broken_snapshot \<noteq> [] \<and> JSON_parse broken_snapshot = Inl SyntaxError"
    by (simp add: JSON_parse_broken) (simp add: broken_snapshot_def js_def)
  have n: "number_snapshot \<noteq> [] \<and> JSON_parse number_snapshot = Inr (JNum 5)"
    by (simp add: JSON_parse_number) (simp add: number_snapshot_def js_def)
  have t: "todos_of_json (JNum 5) = None" by (simp add: todos_of_json_def)
  from load_outcomes [where saved = broken_snapshot] b
  have 1: "load (Some broken_snapshot) = Inl SyntaxError" by blast
  from load_outcomes [where saved = number_snapshot and v = "JNum 5"] n
  have 2: "load (Some number_snapshot) = Inr (Some (JNum 5))" by blast
  from load_outcomes [where stored = "Some broken_snapshot" and e = SyntaxError] 1
  have 3: "\<exists>saved. Some broken_snapshot = Some saved \<and> saved \<noteq> [] \<and>
      JSON_parse saved = Inl SyntaxError" by blast
  from 1 2 3 b n t show ?thesis by blast
qed



end
